theory Spec2Isabelle
  imports Main "HOL-Library.Sublist"
begin

section \<open>Python string primitives used by \<open>analyze_vpat.py\<close>\<close>

text \<open>
  Strings are lists of characters. A \<open>char\<close> is one code point in the range 0..255, so
  \<open>length\<close> counts code points as Python's \<open>len\<close> does on such a string. \<open>isspace\<close> lists
  the code points of that range for which Python's \<open>str.isspace\<close> holds; they are the ones
  \<open>str.strip()\<close> removes. The proofs below use of this list only that the newline is in it.
\<close>

definition NL :: char where
  "NL = CHR 0x0A"

definition whitespace :: "char list" where
  "whitespace = [CHR 0x09, CHR 0x0A, CHR 0x0B, CHR 0x0C, CHR 0x0D, CHR 0x1C, CHR 0x1D,
     CHR 0x1E, CHR 0x1F, CHR 0x20, CHR 0x85, CHR 0xA0]"

definition isspace :: "char \<Rightarrow> bool" where
  "isspace c = (c \<in> set whitespace)"

text \<open>\<open>s.strip()\<close>: the leading and the trailing whitespace removed.\<close>

definition py_strip :: "string \<Rightarrow> string" where
  "py_strip s = rev (dropWhile isspace (rev (dropWhile isspace s)))"

text \<open>
  \<open>s.split(sep)\<close> for a one-character separator: the empty string gives one empty piece,
  and n separators give n + 1 pieces. A character that is not the separator goes in front
  of the first piece of the rest; the split of the rest is never empty (\<open>py_split_not_Nil\<close>
  below), so that piece exists.
\<close>

fun py_split :: "char \<Rightarrow> string \<Rightarrow> string list" where
  "py_split sep [] = [[]]"
| "py_split sep (c # cs) =
     (if c = sep then [] # py_split sep cs
      else (c # hd (py_split sep cs)) # tl (py_split sep cs))"

text \<open>\<open>sep.join(ls)\<close>.\<close>

fun py_join :: "string \<Rightarrow> string list \<Rightarrow> string" where
  "py_join sep [] = []"
| "py_join sep [l] = l"
| "py_join sep (l # ls) = l @ sep @ py_join sep ls"

text \<open>\<open>str(n)\<close> for a natural number: its decimal digits.\<close>

function str_nat :: "nat \<Rightarrow> string" where
  "str_nat n =
     (if n < 10 then [''0123456789'' ! n]
      else str_nat (n div 10) @ [''0123456789'' ! (n mod 10)])"
  by pat_completeness auto
termination
  by (relation "measure id") auto

declare str_nat.simps [simp del]

section \<open>The environment: PDF library, model provider, file system\<close>

text \<open>
  Every exception the code can meet is an instance of Python's \<open>Exception\<close>; the
  constructors name where it comes from, the string is its message (\<open>str(e)\<close>).
\<close>

datatype exn =
    DocumentOpenError string
  | RenderError string
  | OSError string
  | AnalyzerCapabilityError string

fun str_exn :: "exn \<Rightarrow> string" where
  "str_exn (DocumentOpenError m) = m"
| "str_exn (RenderError m) = m"
| "str_exn (OSError m) = m"
| "str_exn (AnalyzerCapabilityError m) = m"

text \<open>
  A page of an opened document: \<open>get_text\<close> is \<open>page.get_text("text")\<close>, taken to
  return for every page of a document that opened, and \<open>get_pixmap dpi\<close> is
  \<open>page.get_pixmap(dpi=dpi)\<close> followed by \<open>pix.save\<close>: the PNG bytes written, or the
  exception raised by rendering or saving.
\<close>

record page =
  get_text :: string
  get_pixmap :: "nat \<Rightarrow> exn + string"

text \<open>
  A request to \<open>client.chat.completions.create\<close>. The model name, the system message, the
  temperature and the prompt's fixed wording are the same in every call of one kind, so
  a request is identified by its kind and its variable part: the document text of
  \<open>analyse_text_with_chat\<close>, the image bytes of \<open>analyse_page_image\<close> (sent base64-encoded,
  which is injective). An event records one call with its outcome:
  \<open>response.choices[0].message.content\<close>, or the exception raised.
\<close>

datatype request = ChatRequest string | VisionRequest string

datatype event = Call request "exn + string"

text \<open>
  The world outside the program: \<open>fitz_open\<close> gives the pages of the file at a
  path (or raises), the same each time the file is opened during one call;
  \<open>os_makedirs\<close> is \<open>os.makedirs(path, exist_ok=True)\<close>, which returns nothing or raises
  (the path is a file, the parent cannot be written); and \<open>client_create\<close> is the model
  provider. The provider is not a function of the request alone: its answer may depend
  on everything it was asked before, so it takes the history of calls too.
\<close>

record world =
  fitz_open :: "string \<Rightarrow> exn + page list"
  os_makedirs :: "string \<Rightarrow> exn option"
  client_create :: "event list \<Rightarrow> request \<Rightarrow> exn + string"

text \<open>
  What the program changes: the files it writes (path to contents), the calls it made
  to the provider, in order, and the lines it printed.
\<close>

record state =
  files :: "string \<rightharpoonup> string"
  calls :: "event list"
  stdout :: "string list"

section \<open>The functions of \<open>analyze_vpat.py\<close>\<close>

text \<open>
  \<open>extract_vpat_text\<close>: the loop \<open>for page in doc: text += page.get_text("text") + "\n"\<close>,
  with \<open>text\<close> as the accumulator.
\<close>

fun extract_pages :: "page list \<Rightarrow> string \<Rightarrow> string" where
  "extract_pages [] text = text"
| "extract_pages (page # doc) text = extract_pages doc (text @ get_text page @ [NL])"

definition extract_vpat_text :: "world \<Rightarrow> string \<Rightarrow> exn + string" where
  "extract_vpat_text w pdf_path =
     (case fitz_open w pdf_path of
        Inl e \<Rightarrow> Inl e
      | Inr doc \<Rightarrow> Inr (extract_pages doc []))"

text \<open>One call of the provider, recorded in the state with its outcome.\<close>

definition create :: "world \<Rightarrow> request \<Rightarrow> state \<Rightarrow> (exn + string) \<times> state" where
  "create w req s =
     (let resp = client_create w (calls s) req
      in (resp, s\<lparr>calls := calls s @ [Call req resp]\<rparr>))"

definition analyse_text_with_chat :: "world \<Rightarrow> string \<Rightarrow> state \<Rightarrow> (exn + string) \<times> state" where
  "analyse_text_with_chat w text s =
     (case create w (ChatRequest text) s of
        (Inl e, s') \<Rightarrow> (Inl e, s')
      | (Inr content, s') \<Rightarrow> (Inr (py_strip content), s'))"

text \<open>
  \<open>analyse_page_image\<close> reads the image file back (\<open>open(image_path, "rb")\<close> raises when
  there is no such file) and sends its bytes.
\<close>

definition analyse_page_image :: "world \<Rightarrow> string \<Rightarrow> state \<Rightarrow> (exn + string) \<times> state" where
  "analyse_page_image w image_path s =
     (case files s image_path of
        None \<Rightarrow> (Inl (OSError image_path), s)
      | Some image_data \<Rightarrow>
          (case create w (VisionRequest image_data) s of
             (Inl e, s') \<Rightarrow> (Inl e, s')
           | (Inr content, s') \<Rightarrow> (Inr (py_strip content), s')))"

text \<open>
  The comprehension \<open>[line.strip() for line in result.split("\n") if line.strip()]\<close>
  of \<open>analyse_scanned_pdf\<close>.
\<close>

definition format_lines :: "string \<Rightarrow> string list" where
  "format_lines result =
     map py_strip (filter (\<lambda>line. py_strip line \<noteq> []) (py_split NL result))"

text \<open>
  The loop of \<open>analyse_scanned_pdf\<close> over \<open>enumerate(doc)\<close>, with \<open>lines\<close> as the
  accumulator; \<open>page_image_path i\<close> is \<open>f"images/page_{i+1}.png"\<close>. An exception leaves
  the loop at once. The test \<open>if result:\<close> is the test that \<open>result\<close> is not the empty
  string.
\<close>

definition page_image_path :: "nat \<Rightarrow> string" where
  "page_image_path i = ''images/page_'' @ str_nat (i + 1) @ ''.png''"

fun scan_pages ::
  "world \<Rightarrow> (nat \<times> page) list \<Rightarrow> string list \<Rightarrow> state \<Rightarrow> (exn + string list) \<times> state" where
  "scan_pages w [] lines s = (Inr lines, s)"
| "scan_pages w ((i, page) # rest) lines s =
     (case get_pixmap page 200 of
        Inl e \<Rightarrow> (Inl e, s)
      | Inr pix \<Rightarrow>
          (let image_path = page_image_path i;
               s1 = s\<lparr>files := (files s)(image_path \<mapsto> pix)\<rparr>
           in case analyse_page_image w image_path s1 of
                (Inl e, s2) \<Rightarrow> (Inl e, s2)
              | (Inr result, s2) \<Rightarrow>
                  scan_pages w rest
                    (if result \<noteq> [] then lines @ format_lines result else lines) s2))"

text \<open>
  \<open>analyse_scanned_pdf\<close>: inside \<open>with fitz.open(pdf_path) as doc\<close>, the call
  \<open>os.makedirs("images", exist_ok=True)\<close> comes first, whatever the number of pages, and
  its exception leaves the function; the directory it creates is not a file, so the file
  map stays as it is. Then the loop, then the join.
\<close>

definition analyse_scanned_pdf :: "world \<Rightarrow> string \<Rightarrow> state \<Rightarrow> (exn + string) \<times> state" where
  "analyse_scanned_pdf w pdf_path s =
     (case fitz_open w pdf_path of
        Inl e \<Rightarrow> (Inl e, s)
      | Inr doc \<Rightarrow>
          (case os_makedirs w ''images'' of
             Some e \<Rightarrow> (Inl e, s)
           | None \<Rightarrow>
               (case scan_pages w (enumerate 0 doc) [] s of
                  (Inl e, s') \<Rightarrow> (Inl e, s')
                | (Inr lines, s') \<Rightarrow> (Inr (py_join [NL] lines), s'))))"

text \<open>
  \<open>analyze_pdf\<close>. The call of \<open>extract_vpat_text\<close> stands outside the \<open>try\<close>; the
  \<open>except Exception\<close> branch prints \<open>fallback_message e\<close>, the f-string
  \<open>f"Chat analysis failed: {e}. Falling back to vision."\<close>, and falls through to the
  vision path.
\<close>

definition fallback_message :: "exn \<Rightarrow> string" where
  "fallback_message e = ''Chat analysis failed: '' @ str_exn e @ ''. Falling back to vision.''"

definition analyze_pdf :: "world \<Rightarrow> string \<Rightarrow> state \<Rightarrow> (exn + string) \<times> state" where
  "analyze_pdf w pdf_path s =
     (case extract_vpat_text w pdf_path of
        Inl e \<Rightarrow> (Inl e, s)
      | Inr text \<Rightarrow>
          if text \<noteq> [] \<and> 50 < length (py_strip text) then
            (case analyse_text_with_chat w text s of
               (Inr summary, s1) \<Rightarrow> (Inr summary, s1)
             | (Inl e, s1) \<Rightarrow>
                 analyse_scanned_pdf w pdf_path
                   (s1\<lparr>stdout := stdout s1 @ [fallback_message e]\<rparr>))
          else analyse_scanned_pdf w pdf_path s)"

section \<open>Reading a trace of provider calls\<close>

fun chat_texts :: "event list \<Rightarrow> string list" where
  "chat_texts [] = []"
| "chat_texts (Call (ChatRequest t) r # evs) = t # chat_texts evs"
| "chat_texts (Call (VisionRequest i) r # evs) = chat_texts evs"

fun vision_images :: "event list \<Rightarrow> string list" where
  "vision_images [] = []"
| "vision_images (Call (ChatRequest t) r # evs) = vision_images evs"
| "vision_images (Call (VisionRequest i) r # evs) = i # vision_images evs"

fun outcome :: "event \<Rightarrow> exn + string" where
  "outcome (Call req r) = r"

fun responses :: "event list \<Rightarrow> string list" where
  "responses [] = []"
| "responses (Call req (Inr out) # evs) = out # responses evs"
| "responses (Call req (Inl e) # evs) = responses evs"

section \<open>Sample documents and a sample provider\<close>

text \<open>
  Concrete documents and a concrete provider, on which the theorems below are evaluated.
  The directory \<open>images\<close> can be created. \<open>sample_page\<close> renders only
  at 200 DPI. The provider answers the text of \<open>text.pdf\<close>, raises on any other text,
  answers the images \<open>P1\<close> and \<open>P2\<close>, and raises on any other image.
\<close>

definition long_text :: string where
  "long_text = ''1.1.1 Non-text Content Supports Images have text alternatives''"

definition chat_reply :: string where
  "chat_reply = ''1.1.1 A - Supports - x'' @ [NL, NL] @ ''1.4.3 B - Supports - y'' @ [NL]"

definition page1_reply :: string where
  "page1_reply = '' 1.1.1 A - Supports - x '' @ [NL, CHR '' '', NL] @ ''1.4.3 B - Supports - y''"

definition scan_summary :: string where
  "scan_summary = ''1.1.1 A - Supports - x'' @ [NL] @ ''1.4.3 B - Supports - y''"

definition chat_summary :: string where
  "chat_summary = ''1.1.1 A - Supports - x'' @ [NL, NL] @ ''1.4.3 B - Supports - y''"

definition quota_text :: string where
  "quota_text = long_text @ ''!''"

definition sample_page :: "string \<Rightarrow> string \<Rightarrow> page" where
  "sample_page t img =
     \<lparr>get_text = t,
      get_pixmap = (\<lambda>dpi. if dpi = 200 then Inr img else Inl (RenderError ''dpi''))\<rparr>"

definition sample_open :: "string \<Rightarrow> exn + page list" where
  "sample_open path =
     (if path = ''text.pdf'' then Inr [sample_page long_text ''T1'']
      else if path = ''quota.pdf'' then
        Inr [sample_page quota_text ''P1'', sample_page [] ''P2'']
      else if path = ''scan.pdf'' then Inr [sample_page ''a'' ''P1'', sample_page [] ''P2'']
      else if path = ''one.pdf'' then Inr [sample_page ''a'' ''P1'']
      else if path = ''bad.pdf'' then
        Inr [sample_page [] ''P1'', sample_page [] ''P3'', sample_page [] ''P2'']
      else if path = ''empty.pdf'' then Inr []
      else Inl (DocumentOpenError ''cannot open''))"

definition sample_create :: "event list \<Rightarrow> request \<Rightarrow> exn + string" where
  "sample_create history req =
     (case req of
        ChatRequest t \<Rightarrow>
          if t = long_text @ [NL] then Inr chat_reply
          else Inl (AnalyzerCapabilityError ''quota'')
      | VisionRequest img \<Rightarrow>
          if img = ''P1'' then Inr page1_reply
          else if img = ''P2'' then Inr '' ''
          else Inl (AnalyzerCapabilityError ''vision''))"

definition sample_world :: world where
  "sample_world =
     \<lparr>fitz_open = sample_open, os_makedirs = (\<lambda>path. None), client_create = sample_create\<rparr>"

text \<open>The same world on a file system where the directory cannot be created.\<close>

definition readonly_world :: world where
  "readonly_world =
     sample_world\<lparr>os_makedirs := (\<lambda>path. Some (OSError ''Read-only file system''))\<rparr>"

definition initial_state :: state where
  "initial_state = \<lparr>files = Map.empty, calls = [], stdout = []\<rparr>"

section \<open>Facts about the string primitives\<close>

lemma isspace_NL: "isspace NL"
  by (simp add: isspace_def whitespace_def NL_def)

lemma py_split_not_Nil: "py_split sep s \<noteq> []"
  by (induction s) simp_all

lemma py_split_no_sep: "l \<in> set (py_split sep s) \<Longrightarrow> sep \<notin> set l"
proof (induction s arbitrary: l)
  case Nil
  then show ?case by simp
next
  case (Cons c cs)
  obtain p ps where ps: "py_split sep cs = p # ps"
    using py_split_not_Nil [of sep cs] by (cases "py_split sep cs") auto
  show ?case
  proof (cases "c = sep")
    case True
    with Cons show ?thesis by auto
  next
    case False
    with Cons.prems ps have "l = c # p \<or> l \<in> set ps" by simp
    then show ?thesis
      using Cons.IH ps False by auto
  qed
qed

lemma py_split_single: "sep \<notin> set l \<Longrightarrow> py_split sep l = [l]"
  by (induction l) auto

lemma py_split_append: "sep \<notin> set l \<Longrightarrow> py_split sep (l @ sep # r) = l # py_split sep r"
  by (induction l) auto

lemma py_split_join:
  "ls \<noteq> [] \<Longrightarrow> \<forall>l\<in>set ls. sep \<notin> set l \<Longrightarrow> py_split sep (py_join [sep] ls) = ls"
proof (induction ls)
  case Nil
  then show ?case by simp
next
  case (Cons l ls)
  show ?case
  proof (cases ls)
    case Nil
    with Cons.prems show ?thesis by (simp add: py_split_single)
  next
    case (Cons m ms)
    with Cons.prems Cons.IH show ?thesis by (simp add: py_split_append)
  qed
qed

lemma py_strip_Nil: "py_strip [] = []"
  by (simp add: py_strip_def)

lemma set_py_strip: "set (py_strip s) \<subseteq> set s"
proof
  fix x
  assume "x \<in> set (py_strip s)"
  then have "x \<in> set (dropWhile isspace (rev (dropWhile isspace s)))"
    by (simp add: py_strip_def)
  then have "x \<in> set (rev (dropWhile isspace s))" by (rule set_dropWhileD)
  then have "x \<in> set (dropWhile isspace s)" by simp
  then show "x \<in> set s" by (rule set_dropWhileD)
qed

lemma hd_py_strip: "py_strip s \<noteq> [] \<Longrightarrow> \<not> isspace (hd (py_strip s))"
proof -
  assume ne: "py_strip s \<noteq> []"
  let ?d = "dropWhile isspace s"
  have dne: "?d \<noteq> []"
  proof
    assume d: "?d = []"
    have "py_strip s = []" unfolding py_strip_def d by simp
    with ne show False by simp
  qed
  then have h: "\<not> isspace (hd ?d)" by (rule hd_dropWhile)
  have "\<exists>a b. ?d = a @ b \<and> py_strip s = a \<and> (\<forall>x\<in>set b. isspace x)"
  proof -
    have "rev ?d = takeWhile isspace (rev ?d) @ dropWhile isspace (rev ?d)" by simp
    then have "?d = rev (dropWhile isspace (rev ?d)) @ rev (takeWhile isspace (rev ?d))"
      by (metis rev_append rev_rev_ident)
    moreover have "\<forall>x\<in>set (rev (takeWhile isspace (rev ?d))). isspace x"
      by (auto dest: set_takeWhileD)
    ultimately show ?thesis unfolding py_strip_def by blast
  qed
  then obtain b where "?d = py_strip s @ b" by blast
  then have "hd ?d = hd (py_strip s)" using ne by (metis hd_append2)
  with h show ?thesis by simp
qed

lemma last_py_strip: "py_strip s \<noteq> [] \<Longrightarrow> \<not> isspace (last (py_strip s))"
proof -
  assume ne: "py_strip s \<noteq> []"
  then have "dropWhile isspace (rev (dropWhile isspace s)) \<noteq> []"
    by (simp add: py_strip_def)
  then have "\<not> isspace (hd (dropWhile isspace (rev (dropWhile isspace s))))"
    by (rule hd_dropWhile)
  then show ?thesis using ne by (simp add: py_strip_def last_rev)
qed

lemma py_strip_id: "s \<noteq> [] \<Longrightarrow> \<not> isspace (hd s) \<Longrightarrow> \<not> isspace (last s) \<Longrightarrow> py_strip s = s"
proof -
  assume a: "s \<noteq> []" "\<not> isspace (hd s)" "\<not> isspace (last s)"
  then have "dropWhile isspace s = s" by (cases s) auto
  moreover have "dropWhile isspace (rev s) = rev s"
    using a by (cases "rev s") (auto simp: last_rev hd_rev)
  ultimately show ?thesis by (simp add: py_strip_def)
qed

lemma py_strip_idem: "py_strip (py_strip s) = py_strip s"
proof (cases "py_strip s = []")
  case True
  then show ?thesis by (simp add: py_strip_Nil)
next
  case False
  then show ?thesis by (intro py_strip_id hd_py_strip last_py_strip)
qed

lemma hd_py_join: "ls \<noteq> [] \<Longrightarrow> hd ls \<noteq> [] \<Longrightarrow> hd (py_join sep ls) = hd (hd ls)"
  by (induction sep ls rule: py_join.induct) simp_all

lemma last_py_join:
  "ls \<noteq> [] \<Longrightarrow> last ls \<noteq> [] \<Longrightarrow> last (py_join [c] ls) = last (last ls)"
proof (induction ls)
  case Nil
  then show ?case by simp
next
  case (Cons l ls)
  show ?case
  proof (cases ls)
    case Nil
    then show ?thesis by simp
  next
    case (Cons m ms)
    with Cons.prems Cons.IH have "last (py_join [c] ls) = last (last ls)" by simp
    moreover have "py_join [c] ls \<noteq> []"
    proof
      assume e: "py_join [c] ls = []"
      show False
      proof (cases ms)
        case Nil
        with e Cons Cons.prems \<open>ls = m # ms\<close> show False by simp
      next
        case (Cons a as)
        with e \<open>ls = m # ms\<close> show False by simp
      qed
    qed
    ultimately show ?thesis using Cons by simp
  qed
qed

text \<open>
  For evaluation on a concrete string, \<open>py_split\<close> is unfolded through a case on the
  split of the rest, so that the rest is split once.
\<close>

lemma py_split_Cons_case:
  "py_split sep (c # cs) =
     (case py_split sep cs of
        [] \<Rightarrow> []
      | p # ps \<Rightarrow> if c = sep then [] # p # ps else (c # p) # ps)"
  using py_split_not_Nil [of sep cs] by (cases "py_split sep cs") simp_all

declare py_split.simps(2) [simp del]

section \<open>Facts about the line formatter\<close>

lemma format_lines_Nil: "format_lines [] = []"
  by (simp add: format_lines_def py_strip_Nil)

lemma format_lines_nonempty: "l \<in> set (format_lines x) \<Longrightarrow> l \<noteq> []"
  by (auto simp: format_lines_def)

lemma format_lines_stripped: "l \<in> set (format_lines x) \<Longrightarrow> py_strip l = l"
  by (auto simp: format_lines_def py_strip_idem)

lemma format_lines_no_NL: "l \<in> set (format_lines x) \<Longrightarrow> NL \<notin> set l"
proof -
  assume "l \<in> set (format_lines x)"
  then obtain p where p: "p \<in> set (py_split NL x)" "l = py_strip p"
    by (auto simp: format_lines_def)
  from p(1) have "NL \<notin> set p" by (rule py_split_no_sep)
  with p(2) set_py_strip [of p] show ?thesis by auto
qed

lemma guard_format_lines:
  "(if result \<noteq> [] then lines @ format_lines result else lines) = lines @ format_lines result"
  by (simp add: format_lines_Nil)

lemma filter_nonblank_id:
  "\<forall>l\<in>set ls. py_strip l \<noteq> [] \<Longrightarrow> filter (\<lambda>line. py_strip line \<noteq> []) ls = ls"
  by (induction ls) simp_all

lemma concat_map_filter:
  "\<forall>x. \<not> P x \<longrightarrow> f x = [] \<Longrightarrow> concat (map f (filter P xs)) = concat (map f xs)"
  by (induction xs) simp_all

text \<open>Lines that are clean, joined by newlines, are the lines of the joined text.\<close>

lemma joined_lines:
  assumes "\<forall>l\<in>set ls. l \<noteq> [] \<and> py_strip l = l \<and> NL \<notin> set l" "r = py_join [NL] ls" "r \<noteq> []"
  shows "py_split NL r = ls" "\<not> isspace (hd r)" "\<not> isspace (last r)"
proof -
  from assms have ne: "ls \<noteq> []" by auto
  with assms show "py_split NL r = ls" by (simp add: py_split_join)
  from ne have h: "hd ls \<in> set ls" and l: "last ls \<in> set ls" by simp_all
  from h assms(1) have "hd ls \<noteq> []" "py_strip (hd ls) = hd ls" by auto
  then have "\<not> isspace (hd (hd ls))" using hd_py_strip [of "hd ls"] by simp
  then show "\<not> isspace (hd r)" using ne \<open>hd ls \<noteq> []\<close> assms(2) by (simp add: hd_py_join)
  from l assms(1) have "last ls \<noteq> []" "py_strip (last ls) = last ls" by auto
  then have "\<not> isspace (last (last ls))" using last_py_strip [of "last ls"] by simp
  then show "\<not> isspace (last r)" using ne \<open>last ls \<noteq> []\<close> assms(2) by (simp add: last_py_join)
qed

lemma collected_lines_clean:
  "\<forall>l\<in>set (concat (map (\<lambda>out. format_lines (py_strip out)) outs)).
     l \<noteq> [] \<and> py_strip l = l \<and> NL \<notin> set l"
  by (auto dest: format_lines_nonempty format_lines_stripped format_lines_no_NL)

section \<open>Facts about the page loop\<close>

lemma analyse_page_image_written:
  "analyse_page_image w path (s\<lparr>files := (files s)(path \<mapsto> pix)\<rparr>) =
     (map_sum id py_strip (client_create w (calls s) (VisionRequest pix)),
      s\<lparr>files := (files s)(path \<mapsto> pix),
        calls := calls s @ [Call (VisionRequest pix) (client_create w (calls s) (VisionRequest pix))]\<rparr>)"
  by (simp add: analyse_page_image_def create_def Let_def split: sum.splits)

lemma scan_pages_render_fails:
  "get_pixmap page 200 = Inl e \<Longrightarrow> scan_pages w ((i, page) # rest) lines s = (Inl e, s)"
  by simp

lemma scan_pages_call_fails:
  "get_pixmap page 200 = Inr pix \<Longrightarrow> client_create w (calls s) (VisionRequest pix) = Inl e \<Longrightarrow>
   scan_pages w ((i, page) # rest) lines s =
     (Inl e, s\<lparr>files := (files s)(page_image_path i \<mapsto> pix),
               calls := calls s @ [Call (VisionRequest pix) (Inl e)]\<rparr>)"
  by (simp add: analyse_page_image_written Let_def)

lemma scan_pages_call_returns:
  "get_pixmap page 200 = Inr pix \<Longrightarrow> client_create w (calls s) (VisionRequest pix) = Inr out \<Longrightarrow>
   scan_pages w ((i, page) # rest) lines s =
     scan_pages w rest (lines @ format_lines (py_strip out))
       (s\<lparr>files := (files s)(page_image_path i \<mapsto> pix),
          calls := calls s @ [Call (VisionRequest pix) (Inr out)]\<rparr>)"
  by (simp add: analyse_page_image_written Let_def guard_format_lines)

declare scan_pages.simps(2) [simp del]

text \<open>Every run of the loop: the new calls are vision calls for a prefix of the pages.\<close>

lemma scan_pages_trace:
  "scan_pages w ips lines s = (r, s') \<Longrightarrow>
   \<exists>evs. calls s' = calls s @ evs \<and> chat_texts evs = [] \<and>
     length (vision_images evs) = length evs \<and>
     prefix (map Inr (vision_images evs)) (map (\<lambda>(i, p). get_pixmap p 200) ips)"
proof (induction ips arbitrary: lines s)
  case Nil
  then show ?case by simp
next
  case (Cons ip ips)
  obtain i p where ip: "ip = (i, p)" by (cases ip)
  show ?case
  proof (cases "get_pixmap p 200")
    case (Inl e)
    with Cons.prems ip have "s' = s" by (simp add: scan_pages_render_fails)
    then show ?thesis by simp
  next
    case (Inr pix)
    show ?thesis
    proof (cases "client_create w (calls s) (VisionRequest pix)")
      case (Inl e)
      from scan_pages_call_fails [OF Inr Inl] Cons.prems ip
      have "calls s' = calls s @ [Call (VisionRequest pix) (Inl e)]" by auto
      then show ?thesis using Inr ip by simp
    next
      case out: (Inr out)
      let ?s2 = "s\<lparr>files := (files s)(page_image_path i \<mapsto> pix),
          calls := calls s @ [Call (VisionRequest pix) (Inr out)]\<rparr>"
      from scan_pages_call_returns [OF Inr out] Cons.prems ip
      have "scan_pages w ips (lines @ format_lines (py_strip out)) ?s2 = (r, s')" by simp
      from Cons.IH [OF this] obtain evs where evs:
        "calls s' = calls ?s2 @ evs" "chat_texts evs = []"
        "length (vision_images evs) = length evs"
        "prefix (map Inr (vision_images evs)) (map (\<lambda>(i, p). get_pixmap p 200) ips)"
        by blast
      show ?thesis
        apply (rule exI [of _ "Call (VisionRequest pix) (Inr out) # evs"])
        using evs Inr ip by simp
    qed
  qed
qed

text \<open>A run that returns: one call per page, each returned, and the lines collected.\<close>

lemma scan_pages_returns:
  "scan_pages w ips lines s = (Inr ls, s') \<Longrightarrow>
   \<exists>evs. calls s' = calls s @ evs \<and>
     map Inr (vision_images evs) = map (\<lambda>(i, p). get_pixmap p 200) ips \<and>
     length evs = length ips \<and>
     map outcome evs = map Inr (responses evs) \<and>
     ls = lines @ concat (map (\<lambda>out. format_lines (py_strip out)) (responses evs))"
proof (induction ips arbitrary: lines s)
  case Nil
  then show ?case by simp
next
  case (Cons ip ips)
  obtain i p where ip: "ip = (i, p)" by (cases ip)
  from Cons.prems ip obtain pix where pix: "get_pixmap p 200 = Inr pix"
    by (cases "get_pixmap p 200") (auto simp: scan_pages_render_fails)
  from Cons.prems ip pix obtain out where out: "client_create w (calls s) (VisionRequest pix) = Inr out"
    by (cases "client_create w (calls s) (VisionRequest pix)") (auto simp: scan_pages_call_fails)
  let ?s2 = "s\<lparr>files := (files s)(page_image_path i \<mapsto> pix),
      calls := calls s @ [Call (VisionRequest pix) (Inr out)]\<rparr>"
  from scan_pages_call_returns [OF pix out] Cons.prems ip
  have "scan_pages w ips (lines @ format_lines (py_strip out)) ?s2 = (Inr ls, s')" by simp
  from Cons.IH [OF this] obtain evs where evs:
    "calls s' = calls ?s2 @ evs"
    "map Inr (vision_images evs) = map (\<lambda>(i, p). get_pixmap p 200) ips"
    "length evs = length ips"
    "map outcome evs = map Inr (responses evs)"
    "ls = (lines @ format_lines (py_strip out)) @
       concat (map (\<lambda>out. format_lines (py_strip out)) (responses evs))"
    by blast
  show ?case
    apply (rule exI [of _ "Call (VisionRequest pix) (Inr out) # evs"])
    using evs pix ip by simp
qed

text \<open>A run that raises: the exception is the only one among the new calls.\<close>

lemma scan_pages_raises:
  "scan_pages w ips lines s = (Inl e, s') \<Longrightarrow>
   \<exists>evs. calls s' = calls s @ evs \<and> length evs \<le> length ips \<and>
     (\<forall>ev\<in>set evs. \<forall>e'. outcome ev = Inl e' \<longrightarrow> e' = e)"
proof (induction ips arbitrary: lines s)
  case Nil
  then show ?case by simp
next
  case (Cons ip ips)
  obtain i p where ip: "ip = (i, p)" by (cases ip)
  show ?case
  proof (cases "get_pixmap p 200")
    case (Inl e1)
    with Cons.prems ip have "s' = s" by (simp add: scan_pages_render_fails)
    then show ?thesis by simp
  next
    case (Inr pix)
    show ?thesis
    proof (cases "client_create w (calls s) (VisionRequest pix)")
      case (Inl e1)
      from scan_pages_call_fails [OF Inr Inl] Cons.prems ip
      have "calls s' = calls s @ [Call (VisionRequest pix) (Inl e1)]" "e1 = e" by auto
      then show ?thesis by simp
    next
      case out: (Inr out)
      let ?s2 = "s\<lparr>files := (files s)(page_image_path i \<mapsto> pix),
          calls := calls s @ [Call (VisionRequest pix) (Inr out)]\<rparr>"
      from scan_pages_call_returns [OF Inr out] Cons.prems ip
      have "scan_pages w ips (lines @ format_lines (py_strip out)) ?s2 = (Inl e, s')" by simp
      from Cons.IH [OF this] obtain evs where evs:
        "calls s' = calls ?s2 @ evs" "length evs \<le> length ips"
        "\<forall>ev\<in>set evs. \<forall>e'. outcome ev = Inl e' \<longrightarrow> e' = e"
        by blast
      show ?thesis
        apply (rule exI [of _ "Call (VisionRequest pix) (Inr out) # evs"])
        using evs by simp
    qed
  qed
qed

section \<open>Facts about the vision path and the orchestrator\<close>

lemma map_enumerate_pages:
  "map (\<lambda>(i, p). f p) (enumerate n doc) = map f doc"
  by (induction doc arbitrary: n) simp_all

lemma analyse_scanned_pdf_makedirs_fails:
  "fitz_open w pdf_path = Inr doc \<Longrightarrow> os_makedirs w ''images'' = Some e \<Longrightarrow>
   analyse_scanned_pdf w pdf_path s = (Inl e, s)"
  by (simp add: analyse_scanned_pdf_def)

lemma analyse_scanned_pdf_loop:
  "fitz_open w pdf_path = Inr doc \<Longrightarrow> os_makedirs w ''images'' = None \<Longrightarrow>
   analyse_scanned_pdf w pdf_path s =
     (case scan_pages w (enumerate 0 doc) [] s of
        (Inl e, s') \<Rightarrow> (Inl e, s')
      | (Inr lines, s') \<Rightarrow> (Inr (py_join [NL] lines), s'))"
  by (simp add: analyse_scanned_pdf_def)

lemma analyse_scanned_pdf_trace:
  assumes "fitz_open w pdf_path = Inr doc" "analyse_scanned_pdf w pdf_path s = (r, s')"
  shows "\<exists>evs. calls s' = calls s @ evs \<and> chat_texts evs = [] \<and>
     length (vision_images evs) = length evs \<and>
     prefix (map Inr (vision_images evs)) (map (\<lambda>p. get_pixmap p 200) doc)"
proof (cases "os_makedirs w ''images''")
  case (Some e)
  from analyse_scanned_pdf_makedirs_fails [OF assms(1) Some] assms(2) have "s' = s" by simp
  then show ?thesis by simp
next
  case None
  obtain r0 where "scan_pages w (enumerate 0 doc) [] s = (r0, s')"
    using assms(2) analyse_scanned_pdf_loop [OF assms(1) None, of s]
    by (cases "scan_pages w (enumerate 0 doc) [] s") (auto split: sum.splits)
  from scan_pages_trace [OF this] show ?thesis
    by (simp add: map_enumerate_pages)
qed

lemma analyse_scanned_pdf_returns:
  assumes "analyse_scanned_pdf w pdf_path s = (Inr r, s')"
  shows "\<exists>doc evs. fitz_open w pdf_path = Inr doc \<and> calls s' = calls s @ evs \<and>
     map Inr (vision_images evs) = map (\<lambda>p. get_pixmap p 200) doc \<and>
     length evs = length doc \<and>
     map outcome evs = map Inr (responses evs) \<and>
     r = py_join [NL] (concat (map (\<lambda>out. format_lines (py_strip out)) (responses evs)))"
proof -
  from assms obtain doc where doc: "fitz_open w pdf_path = Inr doc"
    by (cases "fitz_open w pdf_path") (auto simp: analyse_scanned_pdf_def)
  from assms doc have mk: "os_makedirs w ''images'' = None"
    by (cases "os_makedirs w ''images''") (auto simp: analyse_scanned_pdf_makedirs_fails)
  from assms analyse_scanned_pdf_loop [OF doc mk, of s]
  obtain ls where ls: "scan_pages w (enumerate 0 doc) [] s = (Inr ls, s')"
    and r: "r = py_join [NL] ls"
    by (cases "scan_pages w (enumerate 0 doc) [] s") (auto split: sum.splits)
  from scan_pages_returns [OF ls] doc r show ?thesis
    by (auto simp: map_enumerate_pages)
qed

lemma analyse_scanned_pdf_raises:
  assumes "analyse_scanned_pdf w pdf_path s = (Inl e, s')"
  shows "\<exists>evs. calls s' = calls s @ evs \<and>
     (\<forall>ev\<in>set evs. \<forall>e'. outcome ev = Inl e' \<longrightarrow> e' = e)"
proof (cases "fitz_open w pdf_path")
  case (Inl e0)
  with assms have "s' = s" by (simp add: analyse_scanned_pdf_def)
  then show ?thesis by simp
next
  case (Inr doc)
  show ?thesis
  proof (cases "os_makedirs w ''images''")
    case (Some e1)
    from analyse_scanned_pdf_makedirs_fails [OF Inr Some] assms have "s' = s" by simp
    then show ?thesis by simp
  next
    case None
    from assms analyse_scanned_pdf_loop [OF Inr None, of s]
    have "scan_pages w (enumerate 0 doc) [] s = (Inl e, s')"
      by (cases "scan_pages w (enumerate 0 doc) [] s") (auto split: sum.splits)
    from scan_pages_raises [OF this] show ?thesis by blast
  qed
qed

lemma analyse_scanned_pdf_extends:
  assumes "analyse_scanned_pdf w pdf_path s = (r, s')"
  shows "\<exists>evs. calls s' = calls s @ evs"
proof (cases r)
  case (Inl e)
  with assms have "analyse_scanned_pdf w pdf_path s = (Inl e, s')" by simp
  from analyse_scanned_pdf_raises [OF this] show ?thesis by blast
next
  case (Inr x)
  with assms have "analyse_scanned_pdf w pdf_path s = (Inr x, s')" by simp
  from analyse_scanned_pdf_returns [OF this] show ?thesis by blast
qed

lemma outcomes_all_returned:
  "map outcome evs = map Inr outs \<Longrightarrow> Call req (Inl e) \<notin> set evs"
proof
  assume m: "map outcome evs = map Inr outs" and "Call req (Inl e) \<in> set evs"
  then have "outcome (Call req (Inl e)) \<in> set (map outcome evs)" by (metis imageI set_map)
  with m have "Inl e \<in> set (map Inr outs)" by simp
  then show False by auto
qed

lemma scanned_failure:
  assumes "analyse_scanned_pdf w pdf_path s = (r, s')" "calls s' = calls s @ evs"
    "Call req (Inl e) \<in> set evs"
  shows "r = Inl e"
proof (cases r)
  case (Inl e0)
  with assms(1) have "analyse_scanned_pdf w pdf_path s = (Inl e0, s')" by simp
  from analyse_scanned_pdf_raises [OF this] obtain evs' where
    "calls s' = calls s @ evs'" "\<forall>ev\<in>set evs'. \<forall>e'. outcome ev = Inl e' \<longrightarrow> e' = e0"
    by blast
  with assms(2) have "\<forall>ev\<in>set evs. \<forall>e'. outcome ev = Inl e' \<longrightarrow> e' = e0" by simp
  with assms(3) have "e = e0" by fastforce
  with Inl show ?thesis by simp
next
  case (Inr x)
  with assms(1) have "analyse_scanned_pdf w pdf_path s = (Inr x, s')" by simp
  from analyse_scanned_pdf_returns [OF this] obtain evs' where
    "calls s' = calls s @ evs'" "map outcome evs' = map Inr (responses evs')"
    by blast
  with assms(2) have "map outcome evs = map Inr (responses evs)" by simp
  from outcomes_all_returned [OF this] assms(3) show ?thesis by blast
qed

lemma scanned_no_blank_line:
  assumes "analyse_scanned_pdf w pdf_path s = (Inr r, s')" "r \<noteq> []"
  shows "\<forall>l\<in>set (py_split NL r). py_strip l \<noteq> []"
proof -
  from analyse_scanned_pdf_returns [OF assms(1)] obtain evs where
    r: "r = py_join [NL] (concat (map (\<lambda>out. format_lines (py_strip out)) (responses evs)))"
    by blast
  note clean = collected_lines_clean [of "responses evs"]
  have "py_split NL r = concat (map (\<lambda>out. format_lines (py_strip out)) (responses evs))"
    using clean r assms(2) by (rule joined_lines(1))
  with clean show ?thesis by fastforce
qed

text \<open>The four ways through \<open>analyze_pdf\<close>.\<close>

lemma analyze_pdf_open_fails:
  "fitz_open w pdf_path = Inl e \<Longrightarrow> analyze_pdf w pdf_path s = (Inl e, s)"
  by (simp add: analyze_pdf_def extract_vpat_text_def)

lemma analyze_pdf_short:
  "extract_vpat_text w pdf_path = Inr text \<Longrightarrow> length (py_strip text) \<le> 50 \<Longrightarrow>
   analyze_pdf w pdf_path s = analyse_scanned_pdf w pdf_path s"
  by (simp add: analyze_pdf_def)

lemma py_strip_long: "50 < length (py_strip text) \<Longrightarrow> text \<noteq> []"
  by (auto simp: py_strip_Nil)

lemma analyze_pdf_chat_returns:
  "extract_vpat_text w pdf_path = Inr text \<Longrightarrow> 50 < length (py_strip text) \<Longrightarrow>
   client_create w (calls s) (ChatRequest text) = Inr out \<Longrightarrow>
   analyze_pdf w pdf_path s =
     (Inr (py_strip out), s\<lparr>calls := calls s @ [Call (ChatRequest text) (Inr out)]\<rparr>)"
  by (frule py_strip_long) (simp add: analyze_pdf_def analyse_text_with_chat_def create_def Let_def)

lemma analyze_pdf_chat_raises:
  "extract_vpat_text w pdf_path = Inr text \<Longrightarrow> 50 < length (py_strip text) \<Longrightarrow>
   client_create w (calls s) (ChatRequest text) = Inl e \<Longrightarrow>
   analyze_pdf w pdf_path s =
     analyse_scanned_pdf w pdf_path
       (s\<lparr>calls := calls s @ [Call (ChatRequest text) (Inl e)],
          stdout := stdout s @ [fallback_message e]\<rparr>)"
  by (frule py_strip_long) (simp add: analyze_pdf_def analyse_text_with_chat_def create_def Let_def)

lemma extract_pages_acc:
  "extract_pages doc acc = acc @ concat (map (\<lambda>p. get_text p @ [NL]) doc)"
  by (induction doc arbitrary: acc) simp_all

lemma extract_vpat_text_fails:
  "extract_vpat_text w pdf_path = Inl e \<Longrightarrow> fitz_open w pdf_path = Inl e"
  by (cases "fitz_open w pdf_path") (simp_all add: extract_vpat_text_def)

lemma extract_vpat_text_opens:
  "extract_vpat_text w pdf_path = Inr t \<Longrightarrow> \<exists>doc. fitz_open w pdf_path = Inr doc"
  by (cases "fitz_open w pdf_path") (simp_all add: extract_vpat_text_def)

section \<open>The sample inputs, evaluated\<close>

lemma sample_open_missing:
  "fitz_open sample_world ''missing.pdf'' = Inl (DocumentOpenError ''cannot open'')"
  by (simp add: sample_world_def sample_open_def)

lemma sample_open_empty: "fitz_open sample_world ''empty.pdf'' = Inr []"
  by (simp add: sample_world_def sample_open_def)

lemma sample_open_one: "fitz_open sample_world ''one.pdf'' = Inr [sample_page ''a'' ''P1'']"
  by (simp add: sample_world_def sample_open_def)

lemma sample_open_scan:
  "fitz_open sample_world ''scan.pdf'' = Inr [sample_page ''a'' ''P1'', sample_page [] ''P2'']"
  by (simp add: sample_world_def sample_open_def)

lemma sample_open_text: "fitz_open sample_world ''text.pdf'' = Inr [sample_page long_text ''T1'']"
  by (simp add: sample_world_def sample_open_def)

lemma sample_open_quota:
  "fitz_open sample_world ''quota.pdf'' = Inr [sample_page quota_text ''P1'', sample_page [] ''P2'']"
  by (simp add: sample_world_def sample_open_def)

lemma sample_open_bad:
  "fitz_open sample_world ''bad.pdf'' =
     Inr [sample_page [] ''P1'', sample_page [] ''P3'', sample_page [] ''P2'']"
  by (simp add: sample_world_def sample_open_def)

lemma sample_client: "client_create sample_world h req = sample_create h req"
  by (simp add: sample_world_def)

lemma sample_makedirs: "os_makedirs sample_world path = None"
  by (simp add: sample_world_def)

lemma readonly_open_empty: "fitz_open readonly_world ''empty.pdf'' = Inr []"
  by (simp add: readonly_world_def sample_world_def sample_open_def)

lemma readonly_makedirs:
  "os_makedirs readonly_world path = Some (OSError ''Read-only file system'')"
  by (simp add: readonly_world_def)

lemma sample_pixmap: "get_pixmap (sample_page t img) 200 = Inr img"
  by (simp add: sample_page_def)

lemma sample_text: "get_text (sample_page t img) = t"
  by (simp add: sample_page_def)

lemma py_strip_blank_reply: "py_strip '' '' = []"
  by (simp add: py_strip_def isspace_def whitespace_def)

lemma py_strip_page1_reply: "py_strip page1_reply \<noteq> []"
  by (simp add: page1_reply_def py_strip_def isspace_def whitespace_def NL_def)

lemma format_page1_reply:
  "format_lines (py_strip page1_reply) = [''1.1.1 A - Supports - x'', ''1.4.3 B - Supports - y'']"
  by (simp add: page1_reply_def format_lines_def py_strip_def isspace_def whitespace_def NL_def
      py_split_Cons_case)

lemma strip_line1_padded: "py_strip '' 1.1.1 A - Supports - x '' = ''1.1.1 A - Supports - x''"
  by (simp add: py_strip_def isspace_def whitespace_def)

lemma strip_line2: "py_strip ''1.4.3 B - Supports - y'' = ''1.4.3 B - Supports - y''"
  by (simp add: py_strip_def isspace_def whitespace_def)

lemma strip_line1_clean: "py_strip ''1.1.1 A - Supports - x'' = ''1.1.1 A - Supports - x''"
  by (simp add: py_strip_def isspace_def whitespace_def)

lemma strip_newlines: "py_strip [NL, NL, NL] = []" "py_strip [CHR ''a'', NL, NL] = ''a''"
  by (simp_all add: py_strip_def isspace_def whitespace_def NL_def)

lemma strip_long_text: "py_strip (long_text @ [NL]) = long_text"
  by (simp add: long_text_def py_strip_def isspace_def whitespace_def NL_def)

lemma strip_quota_text: "py_strip (quota_text @ [NL, NL]) = quota_text"
  by (simp add: quota_text_def long_text_def py_strip_def isspace_def whitespace_def NL_def)

lemma length_long_text: "length long_text = 61"
  by (simp add: long_text_def)

lemma length_quota_text: "length quota_text = 62"
  by (simp add: quota_text_def long_text_def)

lemma strip_chat_reply: "py_strip chat_reply = chat_summary"
  by (simp add: chat_reply_def chat_summary_def py_strip_def isspace_def whitespace_def NL_def)

lemma chat_summary_lines:
  "py_split NL chat_summary = [''1.1.1 A - Supports - x'', [], ''1.4.3 B - Supports - y'']"
  by (simp add: chat_summary_def py_split_Cons_case NL_def)

lemma scan_summary_nonempty: "scan_summary \<noteq> []"
  by (simp add: scan_summary_def)

lemma scan_summary_lines:
  "py_split NL scan_summary = [''1.1.1 A - Supports - x'', ''1.4.3 B - Supports - y'']"
  by (simp add: scan_summary_def py_split_Cons_case NL_def)

lemma sample_scan_result:
  "fst (analyse_scanned_pdf sample_world ''scan.pdf'' initial_state) =
     Inr scan_summary"
  by (simp add: scan_summary_def analyse_scanned_pdf_def sample_open_scan sample_makedirs scan_pages.simps(2)
      analyse_page_image_def create_def Let_def sample_page_def
      sample_client sample_create_def py_strip_page1_reply format_page1_reply
      py_strip_blank_reply)

lemma sample_scan_calls:
  "calls (snd (analyse_scanned_pdf sample_world ''scan.pdf'' initial_state)) =
     calls initial_state @
     [Call (VisionRequest ''P1'') (Inr page1_reply), Call (VisionRequest ''P2'') (Inr '' '')]"
  by (simp add: analyse_scanned_pdf_def sample_open_scan sample_makedirs scan_pages.simps(2)
      analyse_page_image_def create_def Let_def sample_page_def initial_state_def
      sample_client sample_create_def py_strip_page1_reply format_page1_reply
      py_strip_blank_reply)

lemma sample_scan_run:
  "analyse_scanned_pdf sample_world ''scan.pdf'' initial_state =
     (Inr scan_summary, snd (analyse_scanned_pdf sample_world ''scan.pdf'' initial_state))"
  using sample_scan_result by (simp add: prod_eq_iff)

lemma sample_extract_bad:
  "extract_vpat_text sample_world ''bad.pdf'' = Inr [NL, NL, NL]"
  by (simp add: extract_vpat_text_def sample_open_bad sample_text)

lemma sample_extract_scan:
  "extract_vpat_text sample_world ''scan.pdf'' = Inr [CHR ''a'', NL, NL]"
  by (simp add: extract_vpat_text_def sample_open_scan sample_text)

lemma sample_extract_text: "extract_vpat_text sample_world ''text.pdf'' = Inr (long_text @ [NL])"
  by (simp add: extract_vpat_text_def sample_open_text sample_text)

lemma sample_extract_quota:
  "extract_vpat_text sample_world ''quota.pdf'' = Inr (quota_text @ [NL, NL])"
  by (simp add: extract_vpat_text_def sample_open_quota sample_text)

lemma sample_chat_text:
  "client_create sample_world h (ChatRequest (long_text @ [NL])) = Inr chat_reply"
  by (simp add: sample_client sample_create_def)

lemma sample_chat_quota:
  "client_create sample_world h (ChatRequest (quota_text @ [NL, NL])) =
     Inl (AnalyzerCapabilityError ''quota'')"
  by (simp add: sample_client sample_create_def quota_text_def)

lemma sample_bad_scanned_result:
  "fst (analyse_scanned_pdf sample_world ''bad.pdf'' s) = Inl (AnalyzerCapabilityError ''vision'')"
  by (simp add: analyse_scanned_pdf_def sample_open_bad sample_makedirs scan_pages.simps(2)
      analyse_page_image_def create_def Let_def sample_pixmap
      sample_client sample_create_def py_strip_page1_reply format_page1_reply)

lemma sample_bad_scanned_calls:
  "calls (snd (analyse_scanned_pdf sample_world ''bad.pdf'' s)) =
     calls s @ [Call (VisionRequest ''P1'') (Inr page1_reply),
       Call (VisionRequest ''P3'') (Inl (AnalyzerCapabilityError ''vision''))]"
  by (simp add: analyse_scanned_pdf_def sample_open_bad sample_makedirs scan_pages.simps(2)
      analyse_page_image_def create_def Let_def sample_pixmap
      sample_client sample_create_def py_strip_page1_reply format_page1_reply)

lemma sample_bad_short:
  "analyze_pdf sample_world ''bad.pdf'' s = analyse_scanned_pdf sample_world ''bad.pdf'' s"
  by (rule analyze_pdf_short [OF sample_extract_bad]) (simp add: strip_newlines)

lemma sample_scan_short:
  "analyze_pdf sample_world ''scan.pdf'' s = analyse_scanned_pdf sample_world ''scan.pdf'' s"
  by (rule analyze_pdf_short [OF sample_extract_scan]) (simp add: strip_newlines)

lemma sample_bad_run:
  "analyze_pdf sample_world ''bad.pdf'' initial_state =
     (Inl (AnalyzerCapabilityError ''vision''),
      snd (analyze_pdf sample_world ''bad.pdf'' initial_state))"
  using sample_bad_scanned_result [of initial_state]
  by (simp add: sample_bad_short prod_eq_iff)

lemma sample_bad_calls:
  "calls (snd (analyze_pdf sample_world ''bad.pdf'' initial_state)) =
     calls initial_state @ [Call (VisionRequest ''P1'') (Inr page1_reply),
       Call (VisionRequest ''P3'') (Inl (AnalyzerCapabilityError ''vision''))]"
  by (simp add: sample_bad_short sample_bad_scanned_calls)

lemma sample_scan_pdf_run:
  "analyze_pdf sample_world ''scan.pdf'' initial_state =
     (Inr scan_summary, snd (analyze_pdf sample_world ''scan.pdf'' initial_state))"
  using sample_scan_run by (simp add: sample_scan_short)

lemma sample_scan_pdf_calls:
  "calls (snd (analyze_pdf sample_world ''scan.pdf'' initial_state)) =
     calls initial_state @
     [Call (VisionRequest ''P1'') (Inr page1_reply), Call (VisionRequest ''P2'') (Inr '' '')]"
  by (simp add: sample_scan_short sample_scan_calls)

lemma sample_scan_pdf_result:
  "fst (analyze_pdf sample_world ''scan.pdf'' initial_state) = Inr scan_summary"
  by (simp add: sample_scan_short sample_scan_result)

lemma sample_text_pdf:
  "analyze_pdf sample_world ''text.pdf'' s =
     (Inr chat_summary, s\<lparr>calls := calls s @ [Call (ChatRequest (long_text @ [NL])) (Inr chat_reply)]\<rparr>)"
  using analyze_pdf_chat_returns [OF sample_extract_text _ sample_chat_text, of s]
  by (simp add: strip_long_text length_long_text strip_chat_reply)

lemma sample_quota_scanned_result:
  "fst (analyse_scanned_pdf sample_world ''quota.pdf'' s) = Inr scan_summary"
  by (simp add: scan_summary_def analyse_scanned_pdf_def sample_open_quota sample_makedirs scan_pages.simps(2)
      analyse_page_image_def create_def Let_def sample_pixmap
      sample_client sample_create_def py_strip_page1_reply format_page1_reply
      py_strip_blank_reply)

lemma sample_quota_scanned_calls:
  "calls (snd (analyse_scanned_pdf sample_world ''quota.pdf'' s)) =
     calls s @
     [Call (VisionRequest ''P1'') (Inr page1_reply), Call (VisionRequest ''P2'') (Inr '' '')]"
  by (simp add: analyse_scanned_pdf_def sample_open_quota sample_makedirs scan_pages.simps(2)
      analyse_page_image_def create_def Let_def sample_pixmap
      sample_client sample_create_def py_strip_page1_reply format_page1_reply
      py_strip_blank_reply)

lemma sample_quota_pdf:
  "analyze_pdf sample_world ''quota.pdf'' s =
     analyse_scanned_pdf sample_world ''quota.pdf''
       (s\<lparr>calls := calls s @
            [Call (ChatRequest (quota_text @ [NL, NL])) (Inl (AnalyzerCapabilityError ''quota''))],
          stdout := stdout s @ [fallback_message (AnalyzerCapabilityError ''quota'')]\<rparr>)"
  using analyze_pdf_chat_raises [OF sample_extract_quota _ sample_chat_quota, of s]
  by (simp add: strip_quota_text length_quota_text)

lemma sample_quota_result: "fst (analyze_pdf sample_world ''quota.pdf'' s) = Inr scan_summary"
  by (simp add: sample_quota_pdf sample_quota_scanned_result)

lemma sample_quota_calls:
  "calls (snd (analyze_pdf sample_world ''quota.pdf'' s)) =
     calls s @
     [Call (ChatRequest (quota_text @ [NL, NL])) (Inl (AnalyzerCapabilityError ''quota'')),
      Call (VisionRequest ''P1'') (Inr page1_reply), Call (VisionRequest ''P2'') (Inr '' '')]"
  by (simp add: sample_quota_pdf sample_quota_scanned_calls)

section \<open>Text extraction\<close>

text \<open>
  C5, as the code has it: \<open>extract_vpat_text\<close> returns, in page order, each page's text
  followed by one newline, so the newline ends every page, the last one too; the result
  is the empty string exactly when the document has no page.
\<close>

theorem extract_vpat_text_pages:
  assumes "fitz_open w pdf_path = Inr doc"
  shows "extract_vpat_text w pdf_path = Inr (concat (map (\<lambda>p. get_text p @ [NL]) doc)) \<and>
    (extract_vpat_text w pdf_path = Inr [] \<longleftrightarrow> doc = [])"
proof -
  have "extract_vpat_text w pdf_path = Inr (concat (map (\<lambda>p. get_text p @ [NL]) doc))"
    using assms by (simp add: extract_vpat_text_def extract_pages_acc)
  moreover have "concat (map (\<lambda>p. get_text p @ [NL]) doc) = [] \<longleftrightarrow> doc = []"
    by (cases doc) simp_all
  ultimately show ?thesis by simp
qed

theorem extract_vpat_text_pages_witness:
  "fitz_open sample_world ''one.pdf'' = Inr [sample_page ''a'' ''P1''] \<and>
   extract_vpat_text sample_world ''one.pdf'' = Inr (''a'' @ [NL])"
  using extract_vpat_text_pages [OF sample_open_one] sample_open_one
  by (simp add: sample_page_def)

text \<open>
  C5 as the specification words it, the pages joined with a single newline, fails on a
  document of one page whose text is \<open>a\<close>: the join is \<open>a\<close>, the code returns \<open>a\<close>
  followed by a newline.
\<close>

theorem extract_vpat_text_join_counterexample:
  "fitz_open sample_world ''one.pdf'' = Inr [sample_page ''a'' ''P1''] \<and>
   extract_vpat_text sample_world ''one.pdf'' = Inr (''a'' @ [NL]) \<and>
   py_join [NL] (map get_text [sample_page ''a'' ''P1'']) = ''a'' \<and>
   extract_vpat_text sample_world ''one.pdf'' \<noteq>
     Inr (py_join [NL] (map get_text [sample_page ''a'' ''P1'']))"
  by (simp add: extract_vpat_text_def sample_open_one sample_page_def)

section \<open>Documents that do not open, documents without pages\<close>

text \<open>
  C7: when the PDF library cannot open the document, \<open>analyze_pdf\<close> fails with that
  exception and leaves the state as it was: no call of the text analyzer or of the image
  analyzer, no file written, nothing printed, no fallback.
\<close>

theorem open_failure_propagates:
  assumes "fitz_open w pdf_path = Inl e"
  shows "analyze_pdf w pdf_path s = (Inl e, s) \<and> calls (snd (analyze_pdf w pdf_path s)) = calls s"
  using assms by (simp add: analyze_pdf_open_fails)

theorem open_failure_propagates_witness:
  "fitz_open sample_world ''missing.pdf'' = Inl (DocumentOpenError ''cannot open'') \<and>
   analyze_pdf sample_world ''missing.pdf'' initial_state =
     (Inl (DocumentOpenError ''cannot open''), initial_state) \<and>
   calls (snd (analyze_pdf sample_world ''missing.pdf'' initial_state)) = calls initial_state"
  using open_failure_propagates [OF sample_open_missing, of initial_state] sample_open_missing
  by simp

text \<open>
  C9, as the code has it: for a document that opens and has no page, the extracted text
  is empty and \<open>analyze_pdf\<close> calls no analyzer and leaves the state as it was; it
  returns the empty string when the directory \<open>images\<close> can be created, and fails with
  the exception of \<open>os.makedirs\<close> when it cannot.
\<close>

theorem empty_document:
  assumes "fitz_open w pdf_path = Inr []"
  shows "extract_vpat_text w pdf_path = Inr [] \<and>
    calls (snd (analyze_pdf w pdf_path s)) = calls s \<and>
    (os_makedirs w ''images'' = None \<longrightarrow> analyze_pdf w pdf_path s = (Inr [], s)) \<and>
    (\<forall>e. os_makedirs w ''images'' = Some e \<longrightarrow> analyze_pdf w pdf_path s = (Inl e, s))"
proof -
  have ex: "extract_vpat_text w pdf_path = Inr []"
    using assms by (simp add: extract_vpat_text_def)
  have eq: "analyze_pdf w pdf_path s = analyse_scanned_pdf w pdf_path s"
    using ex by (rule analyze_pdf_short) (simp add: py_strip_Nil)
  have ok: "os_makedirs w ''images'' = None \<longrightarrow> analyze_pdf w pdf_path s = (Inr [], s)"
    using assms eq by (simp add: analyse_scanned_pdf_loop)
  have bad: "\<forall>e. os_makedirs w ''images'' = Some e \<longrightarrow> analyze_pdf w pdf_path s = (Inl e, s)"
    using assms eq by (simp add: analyse_scanned_pdf_makedirs_fails)
  have "calls (snd (analyze_pdf w pdf_path s)) = calls s"
    using ok bad by (cases "os_makedirs w ''images''") simp_all
  with ex ok bad show ?thesis by blast
qed

theorem empty_document_witness:
  "fitz_open sample_world ''empty.pdf'' = Inr [] \<and>
   os_makedirs sample_world ''images'' = None \<and>
   extract_vpat_text sample_world ''empty.pdf'' = Inr [] \<and>
   analyze_pdf sample_world ''empty.pdf'' initial_state = (Inr [], initial_state) \<and>
   fitz_open readonly_world ''empty.pdf'' = Inr [] \<and>
   os_makedirs readonly_world ''images'' = Some (OSError ''Read-only file system'') \<and>
   analyze_pdf readonly_world ''empty.pdf'' initial_state =
     (Inl (OSError ''Read-only file system''), initial_state) \<and>
   calls (snd (analyze_pdf readonly_world ''empty.pdf'' initial_state)) = calls initial_state"
  using empty_document [OF sample_open_empty, of initial_state]
    empty_document [OF readonly_open_empty, of initial_state]
    sample_open_empty readonly_open_empty
  by (simp add: sample_makedirs readonly_makedirs)

text \<open>
  C9 as it is stated, the empty string for every document that opens and has no page,
  fails where the directory \<open>images\<close> cannot be created: the document opens, has no
  page, and \<open>analyze_pdf\<close> fails with the exception of \<open>os.makedirs\<close>.
\<close>

theorem empty_document_makedirs_counterexample:
  "fitz_open readonly_world ''empty.pdf'' = Inr [] \<and>
   analyze_pdf readonly_world ''empty.pdf'' initial_state =
     (Inl (OSError ''Read-only file system''), initial_state) \<and>
   fst (analyze_pdf readonly_world ''empty.pdf'' initial_state) \<noteq> Inr []"
  by (simp add: analyze_pdf_def extract_vpat_text_def readonly_open_empty py_strip_Nil
      analyse_scanned_pdf_def readonly_makedirs)

section \<open>The shape of the vision path's output\<close>

text \<open>
  C10: when the vision path returns \<open>r\<close>, every line of \<open>r\<close> is non-empty and equal to
  its own \<open>strip()\<close> (the empty result has no line at all), \<open>r\<close> neither starts nor ends
  with a newline, and \<open>r\<close> is what the pages whose answer is not blank contribute: a page
  whose answer is empty or whitespace only adds no line.
\<close>

theorem vision_output_shape:
  assumes "analyse_scanned_pdf w pdf_path s = (Inr r, s')" "calls s' = calls s @ evs"
  shows "(r \<noteq> [] \<longrightarrow> (\<forall>l\<in>set (py_split NL r). l \<noteq> [] \<and> py_strip l = l)) \<and>
    (r \<noteq> [] \<longrightarrow> hd r \<noteq> NL \<and> last r \<noteq> NL) \<and>
    r = py_join [NL] (concat (map (\<lambda>out. format_lines (py_strip out))
          (filter (\<lambda>out. py_strip out \<noteq> []) (responses evs))))"
proof -
  define ls where "ls = concat (map (\<lambda>out. format_lines (py_strip out)) (responses evs))"
  from analyse_scanned_pdf_returns [OF assms(1)] obtain evs' where
    e: "calls s' = calls s @ evs'" and
    r': "r = py_join [NL] (concat (map (\<lambda>out. format_lines (py_strip out)) (responses evs')))"
    by blast
  from e assms(2) have "evs' = evs" by simp
  with r' have r: "r = py_join [NL] ls" by (simp add: ls_def)
  have clean: "\<forall>l\<in>set ls. l \<noteq> [] \<and> py_strip l = l \<and> NL \<notin> set l"
    unfolding ls_def by (rule collected_lines_clean)
  have a: "r \<noteq> [] \<longrightarrow> (\<forall>l\<in>set (py_split NL r). l \<noteq> [] \<and> py_strip l = l)"
  proof
    assume ne: "r \<noteq> []"
    have "py_split NL r = ls" using clean r ne by (rule joined_lines(1))
    with clean show "\<forall>l\<in>set (py_split NL r). l \<noteq> [] \<and> py_strip l = l" by blast
  qed
  have b: "r \<noteq> [] \<longrightarrow> hd r \<noteq> NL \<and> last r \<noteq> NL"
  proof
    assume ne: "r \<noteq> []"
    have "\<not> isspace (hd r)" using clean r ne by (rule joined_lines(2))
    moreover have "\<not> isspace (last r)" using clean r ne by (rule joined_lines(3))
    ultimately show "hd r \<noteq> NL \<and> last r \<noteq> NL" using isspace_NL by metis
  qed
  have c: "concat (map (\<lambda>out. format_lines (py_strip out))
          (filter (\<lambda>out. py_strip out \<noteq> []) (responses evs))) = ls"
    unfolding ls_def by (rule concat_map_filter) (simp add: format_lines_Nil)
  have "r = py_join [NL] (concat (map (\<lambda>out. format_lines (py_strip out))
          (filter (\<lambda>out. py_strip out \<noteq> []) (responses evs))))"
    unfolding c by (rule r)
  with a b show ?thesis by blast
qed

theorem vision_output_shape_witness:
  "analyse_scanned_pdf sample_world ''scan.pdf'' initial_state =
     (Inr scan_summary, snd (analyse_scanned_pdf sample_world ''scan.pdf'' initial_state)) \<and>
   calls (snd (analyse_scanned_pdf sample_world ''scan.pdf'' initial_state)) =
     calls initial_state @
     [Call (VisionRequest ''P1'') (Inr page1_reply), Call (VisionRequest ''P2'') (Inr '' '')] \<and>
   scan_summary \<noteq> [] \<and>
   py_split NL scan_summary = [''1.1.1 A - Supports - x'', ''1.4.3 B - Supports - y''] \<and>
   py_strip ''1.1.1 A - Supports - x'' = ''1.1.1 A - Supports - x'' \<and>
   py_strip ''1.4.3 B - Supports - y'' = ''1.4.3 B - Supports - y'' \<and>
   hd scan_summary \<noteq> NL \<and> last scan_summary \<noteq> NL \<and>
   py_strip '' '' = [] \<and>
   scan_summary = py_join [NL] (format_lines (py_strip page1_reply))"
  using vision_output_shape [OF sample_scan_run sample_scan_calls]
    sample_scan_run sample_scan_calls scan_summary_nonempty scan_summary_lines
    py_strip_blank_reply py_strip_page1_reply
  by simp

section \<open>The line formatter\<close>

text \<open>
  C6, as the code has it: for lines that are not blank and hold no newline, formatting
  their join gives as many lines, each the input line with its leading and trailing
  whitespace removed; the lines come back unchanged when they carry no such whitespace.
\<close>

theorem format_lines_round_trip:
  assumes "\<forall>l\<in>set ls. py_strip l \<noteq> [] \<and> NL \<notin> set l"
  shows "format_lines (py_join [NL] ls) = map py_strip ls \<and>
    length (format_lines (py_join [NL] ls)) = length ls \<and>
    ((\<forall>l\<in>set ls. py_strip l = l) \<longrightarrow> format_lines (py_join [NL] ls) = ls)"
proof -
  have eq: "format_lines (py_join [NL] ls) = map py_strip ls"
  proof (cases "ls = []")
    case True
    then show ?thesis by (simp add: format_lines_Nil)
  next
    case False
    with assms have "py_split NL (py_join [NL] ls) = ls" by (simp add: py_split_join)
    moreover from assms have "filter (\<lambda>line. py_strip line \<noteq> []) ls = ls"
      by (simp add: filter_nonblank_id)
    ultimately show ?thesis by (simp add: format_lines_def)
  qed
  moreover have "(\<forall>l\<in>set ls. py_strip l = l) \<longrightarrow> map py_strip ls = ls"
    by (simp add: map_idI)
  ultimately show ?thesis by simp
qed

theorem format_lines_round_trip_witness:
  "py_strip '' 1.1.1 A - Supports - x '' \<noteq> [] \<and> NL \<notin> set '' 1.1.1 A - Supports - x '' \<and>
   py_strip ''1.4.3 B - Supports - y'' \<noteq> [] \<and> NL \<notin> set ''1.4.3 B - Supports - y'' \<and>
   format_lines (py_join [NL] ['' 1.1.1 A - Supports - x '', ''1.4.3 B - Supports - y'']) =
     [''1.1.1 A - Supports - x'', ''1.4.3 B - Supports - y''] \<and>
   length (format_lines (py_join [NL] ['' 1.1.1 A - Supports - x '', ''1.4.3 B - Supports - y''])) = 2 \<and>
   py_strip ''1.1.1 A - Supports - x'' = ''1.1.1 A - Supports - x'' \<and>
   NL \<notin> set ''1.1.1 A - Supports - x'' \<and>
   format_lines (py_join [NL] [''1.1.1 A - Supports - x'', ''1.4.3 B - Supports - y'']) =
     [''1.1.1 A - Supports - x'', ''1.4.3 B - Supports - y'']"
  using format_lines_round_trip [of "['' 1.1.1 A - Supports - x '', ''1.4.3 B - Supports - y'']"]
    format_lines_round_trip [of "[''1.1.1 A - Supports - x'', ''1.4.3 B - Supports - y'']"]
  by (simp add: strip_line1_padded strip_line2 strip_line1_clean NL_def)

text \<open>
  C6 as the specification words it, every line preserved verbatim, fails on the single
  line made of a space and \<open>a\<close>: it is not blank, and the formatter returns \<open>a\<close>.
\<close>

theorem format_lines_verbatim_counterexample:
  "py_strip '' a'' \<noteq> [] \<and> NL \<notin> set '' a'' \<and>
   format_lines (py_join [NL] ['' a'']) = [''a''] \<and>
   format_lines (py_join [NL] ['' a'']) \<noteq> ['' a'']"
  by (simp add: format_lines_def py_strip_def isspace_def whitespace_def NL_def py_split_Cons_case)

section \<open>The vision fallback\<close>

text \<open>
  C4: in every run of \<open>analyse_scanned_pdf\<close> on a document that opens, the calls made
  are calls of the image analyzer only, one image per call, and the images sent are the
  renderings at 200 DPI of the first pages of the document, in page order. When the run
  returns, there is exactly one call per page, every call returned, and the result is the
  join by newlines of the pages' lines in page order, the lines of a page being the pieces
  of its answer between newlines, in the answer's order, each stripped, the blank ones
  left out.
\<close>

theorem vision_fallback_pages:
  assumes "fitz_open w pdf_path = Inr doc" "analyse_scanned_pdf w pdf_path s = (r, s')"
  shows "\<exists>evs. calls s' = calls s @ evs \<and> chat_texts evs = [] \<and>
     length (vision_images evs) = length evs \<and>
     prefix (map Inr (vision_images evs)) (map (\<lambda>p. get_pixmap p 200) doc) \<and>
     (\<forall>x. r = Inr x \<longrightarrow>
        map Inr (vision_images evs) = map (\<lambda>p. get_pixmap p 200) doc \<and>
        length evs = length doc \<and>
        map outcome evs = map Inr (responses evs) \<and>
        x = py_join [NL] (concat (map
              (\<lambda>out. map py_strip (filter (\<lambda>line. py_strip line \<noteq> []) (py_split NL (py_strip out))))
              (responses evs))))"
proof -
  from analyse_scanned_pdf_trace [OF assms] obtain evs where evs:
    "calls s' = calls s @ evs" "chat_texts evs = []"
    "length (vision_images evs) = length evs"
    "prefix (map Inr (vision_images evs)) (map (\<lambda>p. get_pixmap p 200) doc)"
    by blast
  have "\<forall>x. r = Inr x \<longrightarrow>
        map Inr (vision_images evs) = map (\<lambda>p. get_pixmap p 200) doc \<and>
        length evs = length doc \<and>
        map outcome evs = map Inr (responses evs) \<and>
        x = py_join [NL] (concat (map
              (\<lambda>out. map py_strip (filter (\<lambda>line. py_strip line \<noteq> []) (py_split NL (py_strip out))))
              (responses evs)))"
  proof (intro allI impI)
    fix x
    assume "r = Inr x"
    with assms(2) have "analyse_scanned_pdf w pdf_path s = (Inr x, s')" by simp
    from analyse_scanned_pdf_returns [OF this] obtain doc' evs' where r:
      "fitz_open w pdf_path = Inr doc'" "calls s' = calls s @ evs'"
      "map Inr (vision_images evs') = map (\<lambda>p. get_pixmap p 200) doc'"
      "length evs' = length doc'"
      "map outcome evs' = map Inr (responses evs')"
      "x = py_join [NL] (concat (map (\<lambda>out. format_lines (py_strip out)) (responses evs')))"
      by blast
    from r(1) assms(1) have d: "doc' = doc" by simp
    from r(2) evs(1) have e: "evs' = evs" by simp
    from r(3-6) show "map Inr (vision_images evs) = map (\<lambda>p. get_pixmap p 200) doc \<and>
        length evs = length doc \<and>
        map outcome evs = map Inr (responses evs) \<and>
        x = py_join [NL] (concat (map
              (\<lambda>out. map py_strip (filter (\<lambda>line. py_strip line \<noteq> []) (py_split NL (py_strip out))))
              (responses evs)))"
      unfolding d e format_lines_def by simp
  qed
  with evs show ?thesis by blast
qed

theorem vision_fallback_pages_witness:
  "fitz_open sample_world ''scan.pdf'' = Inr [sample_page ''a'' ''P1'', sample_page [] ''P2''] \<and>
   analyse_scanned_pdf sample_world ''scan.pdf'' initial_state =
     (Inr scan_summary, snd (analyse_scanned_pdf sample_world ''scan.pdf'' initial_state)) \<and>
   calls (snd (analyse_scanned_pdf sample_world ''scan.pdf'' initial_state)) =
     calls initial_state @
     [Call (VisionRequest ''P1'') (Inr page1_reply), Call (VisionRequest ''P2'') (Inr '' '')] \<and>
   map (\<lambda>p. get_pixmap p 200) [sample_page ''a'' ''P1'', sample_page [] ''P2''] =
     [Inr ''P1'', Inr ''P2''] \<and>
   scan_summary = py_join [NL] [''1.1.1 A - Supports - x'', ''1.4.3 B - Supports - y'']"
  using vision_fallback_pages [OF sample_open_scan sample_scan_run]
    sample_open_scan sample_scan_run sample_scan_calls
  by (simp add: sample_pixmap scan_summary_def)

text \<open>
  C8: when a call of the image analyzer raises during \<open>analyze_pdf\<close>, the whole call
  fails with that exception. A call that returns a string returns either the text
  analyzer's answer or the lines of all pages of the document: there is no partial
  result.
\<close>

theorem vision_failure_propagates:
  assumes "analyze_pdf w pdf_path s = (r, s')" "calls s' = calls s @ evs"
  shows "(\<forall>img e. Call (VisionRequest img) (Inl e) \<in> set evs \<longrightarrow> r = Inl e) \<and>
    (\<forall>x. r = Inr x \<longrightarrow>
       (\<exists>text out. evs = [Call (ChatRequest text) (Inr out)] \<and> x = py_strip out) \<or>
       (\<exists>doc. fitz_open w pdf_path = Inr doc \<and>
          map Inr (vision_images evs) = map (\<lambda>p. get_pixmap p 200) doc \<and>
          x = py_join [NL] (concat (map (\<lambda>out. format_lines (py_strip out)) (responses evs)))))"
    (is "?fails evs r \<and> ?full evs r")
proof (cases "extract_vpat_text w pdf_path")
  case (Inl e0)
  then have "analyze_pdf w pdf_path s = (Inl e0, s)"
    by (simp add: analyze_pdf_open_fails extract_vpat_text_fails)
  with assms have "r = Inl e0" "evs = []" by simp_all
  then show ?thesis by simp
next
  case (Inr t)
  have scanned: "?fails evs2 r \<and>
      (\<forall>x. r = Inr x \<longrightarrow> (\<exists>doc. fitz_open w pdf_path = Inr doc \<and>
          map Inr (vision_images evs2) = map (\<lambda>p. get_pixmap p 200) doc \<and>
          x = py_join [NL] (concat (map (\<lambda>out. format_lines (py_strip out)) (responses evs2)))))"
    if run: "analyse_scanned_pdf w pdf_path s2 = (r, s')" and tr: "calls s' = calls s2 @ evs2"
    for s2 evs2
  proof
    show "?fails evs2 r" using scanned_failure [OF run tr] by blast
    show "\<forall>x. r = Inr x \<longrightarrow> (\<exists>doc. fitz_open w pdf_path = Inr doc \<and>
          map Inr (vision_images evs2) = map (\<lambda>p. get_pixmap p 200) doc \<and>
          x = py_join [NL] (concat (map (\<lambda>out. format_lines (py_strip out)) (responses evs2))))"
    proof (intro allI impI)
      fix x
      assume "r = Inr x"
      with run have "analyse_scanned_pdf w pdf_path s2 = (Inr x, s')" by simp
      from analyse_scanned_pdf_returns [OF this] obtain doc evs' where
        "fitz_open w pdf_path = Inr doc" "calls s' = calls s2 @ evs'"
        "map Inr (vision_images evs') = map (\<lambda>p. get_pixmap p 200) doc"
        "x = py_join [NL] (concat (map (\<lambda>out. format_lines (py_strip out)) (responses evs')))"
        by blast
      moreover from this(2) tr have "evs' = evs2" by simp
      ultimately show "\<exists>doc. fitz_open w pdf_path = Inr doc \<and>
          map Inr (vision_images evs2) = map (\<lambda>p. get_pixmap p 200) doc \<and>
          x = py_join [NL] (concat (map (\<lambda>out. format_lines (py_strip out)) (responses evs2)))"
        by blast
    qed
  qed
  show ?thesis
  proof (cases "50 < length (py_strip t)")
    case False
    then have "analyze_pdf w pdf_path s = analyse_scanned_pdf w pdf_path s"
      using Inr by (simp add: analyze_pdf_short)
    with assms(1) have "analyse_scanned_pdf w pdf_path s = (r, s')" by simp
    from scanned [OF this assms(2)] show ?thesis by blast
  next
    case True
    show ?thesis
    proof (cases "client_create w (calls s) (ChatRequest t)")
      case out: (Inr out)
      from analyze_pdf_chat_returns [OF Inr True out] assms
      have "r = Inr (py_strip out)" "evs = [Call (ChatRequest t) (Inr out)]" by auto
      then show ?thesis by auto
    next
      case (Inl e1)
      let ?c = "Call (ChatRequest t) (Inl e1)"
      let ?s2 = "s\<lparr>calls := calls s @ [?c], stdout := stdout s @ [fallback_message e1]\<rparr>"
      from analyze_pdf_chat_raises [OF Inr True Inl] assms(1)
      have run: "analyse_scanned_pdf w pdf_path ?s2 = (r, s')" by simp
      from analyse_scanned_pdf_extends [OF run] obtain evs2 where
        tr: "calls s' = calls ?s2 @ evs2" by blast
      with assms(2) have evs: "evs = ?c # evs2" by simp
      from scanned [OF run tr] show ?thesis unfolding evs by auto
    qed
  qed
qed

theorem vision_failure_propagates_witness:
  "analyze_pdf sample_world ''bad.pdf'' initial_state =
     (Inl (AnalyzerCapabilityError ''vision''),
      snd (analyze_pdf sample_world ''bad.pdf'' initial_state)) \<and>
   calls (snd (analyze_pdf sample_world ''bad.pdf'' initial_state)) =
     calls initial_state @ [Call (VisionRequest ''P1'') (Inr page1_reply),
       Call (VisionRequest ''P3'') (Inl (AnalyzerCapabilityError ''vision''))] \<and>
   analyze_pdf sample_world ''scan.pdf'' initial_state =
     (Inr scan_summary, snd (analyze_pdf sample_world ''scan.pdf'' initial_state)) \<and>
   calls (snd (analyze_pdf sample_world ''scan.pdf'' initial_state)) =
     calls initial_state @
     [Call (VisionRequest ''P1'') (Inr page1_reply), Call (VisionRequest ''P2'') (Inr '' '')] \<and>
   fitz_open sample_world ''scan.pdf'' = Inr [sample_page ''a'' ''P1'', sample_page [] ''P2''] \<and>
   scan_summary = py_join [NL] (format_lines (py_strip page1_reply) @ format_lines (py_strip '' ''))"
  using vision_failure_propagates [OF sample_bad_run sample_bad_calls]
    vision_failure_propagates [OF sample_scan_pdf_run sample_scan_pdf_calls]
    sample_bad_run sample_bad_calls sample_scan_pdf_run sample_scan_pdf_calls sample_open_scan
  by simp

section \<open>The triage of the orchestrator\<close>

text \<open>
  C1: for a document whose extracted text is longer than 50 characters once stripped,
  the first call \<open>analyze_pdf\<close> makes is the call of the text analyzer on that text, and
  no later call is a call of the text analyzer: it is tried exactly once, before any
  call of the image analyzer. For a document whose stripped text has at most 50
  characters, \<open>analyze_pdf\<close> is the vision path on the same state, and no call is a call
  of the text analyzer.
\<close>

theorem text_analyzer_triage:
  assumes "extract_vpat_text w pdf_path = Inr text" "analyze_pdf w pdf_path s = (r, s')"
  shows "(50 < length (py_strip text) \<longrightarrow>
      (\<exists>evs. calls s' =
          calls s @ Call (ChatRequest text) (client_create w (calls s) (ChatRequest text)) # evs \<and>
        chat_texts evs = [])) \<and>
    (length (py_strip text) \<le> 50 \<longrightarrow>
      analyze_pdf w pdf_path s = analyse_scanned_pdf w pdf_path s \<and>
      (\<exists>evs. calls s' = calls s @ evs \<and> chat_texts evs = []))"
proof -
  from extract_vpat_text_opens [OF assms(1)] obtain doc where doc: "fitz_open w pdf_path = Inr doc" ..
  have long: "\<exists>evs. calls s' =
          calls s @ Call (ChatRequest text) (client_create w (calls s) (ChatRequest text)) # evs \<and>
        chat_texts evs = []" if len: "50 < length (py_strip text)"
  proof (cases "client_create w (calls s) (ChatRequest text)")
    case (Inr out)
    from analyze_pdf_chat_returns [OF assms(1) len Inr] assms(2)
    have "calls s' = calls s @ [Call (ChatRequest text) (Inr out)]" by auto
    with Inr show ?thesis by simp
  next
    case (Inl e)
    let ?s2 = "s\<lparr>calls := calls s @ [Call (ChatRequest text) (Inl e)],
        stdout := stdout s @ [fallback_message e]\<rparr>"
    from analyze_pdf_chat_raises [OF assms(1) len Inl] assms(2)
    have "analyse_scanned_pdf w pdf_path ?s2 = (r, s')" by simp
    from analyse_scanned_pdf_trace [OF doc this] obtain evs where
      "calls s' = calls ?s2 @ evs" "chat_texts evs = []" by blast
    with Inl show ?thesis by simp
  qed
  have short: "analyze_pdf w pdf_path s = analyse_scanned_pdf w pdf_path s \<and>
      (\<exists>evs. calls s' = calls s @ evs \<and> chat_texts evs = [])"
    if len: "length (py_strip text) \<le> 50"
  proof -
    have eq: "analyze_pdf w pdf_path s = analyse_scanned_pdf w pdf_path s"
      using assms(1) len by (rule analyze_pdf_short)
    with assms(2) have "analyse_scanned_pdf w pdf_path s = (r, s')" by simp
    from analyse_scanned_pdf_trace [OF doc this] eq show ?thesis by blast
  qed
  from long short show ?thesis by blast
qed

theorem text_analyzer_triage_witness:
  "extract_vpat_text sample_world ''text.pdf'' = Inr (long_text @ [NL]) \<and>
   length (py_strip (long_text @ [NL])) = 61 \<and>
   analyze_pdf sample_world ''text.pdf'' initial_state =
     (Inr chat_summary,
      initial_state\<lparr>calls := calls initial_state @
        [Call (ChatRequest (long_text @ [NL])) (Inr chat_reply)]\<rparr>) \<and>
   extract_vpat_text sample_world ''quota.pdf'' = Inr (quota_text @ [NL, NL]) \<and>
   length (py_strip (quota_text @ [NL, NL])) = 62 \<and>
   calls (snd (analyze_pdf sample_world ''quota.pdf'' initial_state)) =
     calls initial_state @
     [Call (ChatRequest (quota_text @ [NL, NL])) (Inl (AnalyzerCapabilityError ''quota'')),
      Call (VisionRequest ''P1'') (Inr page1_reply), Call (VisionRequest ''P2'') (Inr '' '')] \<and>
   extract_vpat_text sample_world ''scan.pdf'' = Inr [CHR ''a'', NL, NL] \<and>
   length (py_strip [CHR ''a'', NL, NL]) = 1 \<and>
   analyze_pdf sample_world ''scan.pdf'' initial_state =
     analyse_scanned_pdf sample_world ''scan.pdf'' initial_state \<and>
   calls (snd (analyze_pdf sample_world ''scan.pdf'' initial_state)) =
     calls initial_state @
     [Call (VisionRequest ''P1'') (Inr page1_reply), Call (VisionRequest ''P2'') (Inr '' '')]"
  using text_analyzer_triage [OF sample_extract_text sample_text_pdf [of initial_state]]
    text_analyzer_triage [OF sample_extract_quota surjective_pairing]
    text_analyzer_triage [OF sample_extract_scan sample_scan_pdf_run]
    sample_extract_text sample_text_pdf [of initial_state] sample_extract_quota
    sample_quota_calls [of initial_state] sample_extract_scan sample_scan_pdf_calls
  by (simp add: strip_long_text length_long_text strip_quota_text length_quota_text
      strip_newlines)

text \<open>
  C2: when the call of the text analyzer raises, \<open>analyze_pdf\<close> is the vision path run
  on the same document, from the state that records the failed call and the printed
  message: the exception goes no further. What follows the failed call are calls of the
  image analyzer on the renderings at 200 DPI of the document's pages in ascending
  order, one call per page, of all the pages when the call returns a string.
\<close>

theorem chat_failure_falls_back:
  assumes "fitz_open w pdf_path = Inr doc" "extract_vpat_text w pdf_path = Inr text"
    "50 < length (py_strip text)" "client_create w (calls s) (ChatRequest text) = Inl e"
  shows "analyze_pdf w pdf_path s =
      analyse_scanned_pdf w pdf_path
        (s\<lparr>calls := calls s @ [Call (ChatRequest text) (Inl e)],
           stdout := stdout s @ [fallback_message e]\<rparr>) \<and>
    (\<exists>evs. calls (snd (analyze_pdf w pdf_path s)) =
        calls s @ Call (ChatRequest text) (Inl e) # evs \<and>
      chat_texts evs = [] \<and> length (vision_images evs) = length evs \<and>
      prefix (map Inr (vision_images evs)) (map (\<lambda>p. get_pixmap p 200) doc) \<and>
      (\<forall>x. fst (analyze_pdf w pdf_path s) = Inr x \<longrightarrow>
         map Inr (vision_images evs) = map (\<lambda>p. get_pixmap p 200) doc))"
proof -
  let ?s2 = "s\<lparr>calls := calls s @ [Call (ChatRequest text) (Inl e)],
      stdout := stdout s @ [fallback_message e]\<rparr>"
  have eq: "analyze_pdf w pdf_path s = analyse_scanned_pdf w pdf_path ?s2"
    using assms(2-4) by (rule analyze_pdf_chat_raises)
  obtain r s' where run: "analyse_scanned_pdf w pdf_path ?s2 = (r, s')"
    by (cases "analyse_scanned_pdf w pdf_path ?s2")
  from analyse_scanned_pdf_trace [OF assms(1) run] obtain evs where evs:
    "calls s' = calls ?s2 @ evs" "chat_texts evs = []" "length (vision_images evs) = length evs"
    "prefix (map Inr (vision_images evs)) (map (\<lambda>p. get_pixmap p 200) doc)"
    by blast
  have full: "\<forall>x. r = Inr x \<longrightarrow> map Inr (vision_images evs) = map (\<lambda>p. get_pixmap p 200) doc"
  proof (intro allI impI)
    fix x
    assume "r = Inr x"
    with run have "analyse_scanned_pdf w pdf_path ?s2 = (Inr x, s')" by simp
    from analyse_scanned_pdf_returns [OF this] obtain doc' evs' where
      "fitz_open w pdf_path = Inr doc'" "calls s' = calls ?s2 @ evs'"
      "map Inr (vision_images evs') = map (\<lambda>p. get_pixmap p 200) doc'"
      by blast
    with assms(1) evs(1) show "map Inr (vision_images evs) = map (\<lambda>p. get_pixmap p 200) doc"
      by simp
  qed
  from evs full eq run show ?thesis by auto
qed

theorem chat_failure_falls_back_witness:
  "fitz_open sample_world ''quota.pdf'' = Inr [sample_page quota_text ''P1'', sample_page [] ''P2''] \<and>
   extract_vpat_text sample_world ''quota.pdf'' = Inr (quota_text @ [NL, NL]) \<and>
   length (py_strip (quota_text @ [NL, NL])) = 62 \<and>
   client_create sample_world (calls initial_state) (ChatRequest (quota_text @ [NL, NL])) =
     Inl (AnalyzerCapabilityError ''quota'') \<and>
   fst (analyze_pdf sample_world ''quota.pdf'' initial_state) = Inr scan_summary \<and>
   calls (snd (analyze_pdf sample_world ''quota.pdf'' initial_state)) =
     calls initial_state @
     [Call (ChatRequest (quota_text @ [NL, NL])) (Inl (AnalyzerCapabilityError ''quota'')),
      Call (VisionRequest ''P1'') (Inr page1_reply), Call (VisionRequest ''P2'') (Inr '' '')] \<and>
   map (\<lambda>p. get_pixmap p 200) [sample_page quota_text ''P1'', sample_page [] ''P2''] =
     [Inr ''P1'', Inr ''P2'']"
  using chat_failure_falls_back [OF sample_open_quota sample_extract_quota _ sample_chat_quota,
      of initial_state]
    sample_open_quota sample_extract_quota sample_chat_quota [of "calls initial_state"]
    sample_quota_result [of initial_state] sample_quota_calls [of initial_state]
  by (simp add: strip_quota_text length_quota_text sample_pixmap)

section \<open>Blank lines in the result\<close>

text \<open>
  C3, as the code has it: when the text analyzer returns, the result of \<open>analyze_pdf\<close>
  is its answer stripped, as it is; when the result comes from the vision path (the
  stripped text has at most 50 characters, or the text analyzer raised), no line of a
  non-empty result is blank.
\<close>

theorem pipeline_output_lines:
  assumes "extract_vpat_text w pdf_path = Inr text" "analyze_pdf w pdf_path s = (Inr r, s')"
  shows "(\<forall>out. 50 < length (py_strip text) \<and>
        client_create w (calls s) (ChatRequest text) = Inr out \<longrightarrow> r = py_strip out) \<and>
    (length (py_strip text) \<le> 50 \<or> (\<exists>e. client_create w (calls s) (ChatRequest text) = Inl e) \<longrightarrow>
      r \<noteq> [] \<longrightarrow> (\<forall>l\<in>set (py_split NL r). py_strip l \<noteq> []))"
proof -
  have chat: "r = py_strip out"
    if "50 < length (py_strip text)" "client_create w (calls s) (ChatRequest text) = Inr out"
    for out
    using analyze_pdf_chat_returns [OF assms(1) that] assms(2) by simp
  have vision: "\<forall>l\<in>set (py_split NL r). py_strip l \<noteq> []"
    if v: "length (py_strip text) \<le> 50 \<or> (\<exists>e. client_create w (calls s) (ChatRequest text) = Inl e)"
      and ne: "r \<noteq> []"
  proof (cases "length (py_strip text) \<le> 50")
    case True
    with assms have "analyse_scanned_pdf w pdf_path s = (Inr r, s')"
      by (simp add: analyze_pdf_short)
    then show ?thesis using ne by (rule scanned_no_blank_line)
  next
    case False
    with v obtain e where e: "client_create w (calls s) (ChatRequest text) = Inl e" by blast
    from False have "50 < length (py_strip text)" by simp
    from analyze_pdf_chat_raises [OF assms(1) this e] assms(2)
    have "analyse_scanned_pdf w pdf_path
       (s\<lparr>calls := calls s @ [Call (ChatRequest text) (Inl e)],
          stdout := stdout s @ [fallback_message e]\<rparr>) = (Inr r, s')"
      by simp
    then show ?thesis using ne by (rule scanned_no_blank_line)
  qed
  from chat vision show ?thesis by blast
qed

theorem pipeline_output_lines_witness:
  "extract_vpat_text sample_world ''text.pdf'' = Inr (long_text @ [NL]) \<and>
   length (py_strip (long_text @ [NL])) = 61 \<and>
   client_create sample_world (calls initial_state) (ChatRequest (long_text @ [NL])) =
     Inr chat_reply \<and>
   fst (analyze_pdf sample_world ''text.pdf'' initial_state) = Inr (py_strip chat_reply) \<and>
   extract_vpat_text sample_world ''scan.pdf'' = Inr [CHR ''a'', NL, NL] \<and>
   length (py_strip [CHR ''a'', NL, NL]) = 1 \<and>
   fst (analyze_pdf sample_world ''scan.pdf'' initial_state) = Inr scan_summary \<and>
   scan_summary \<noteq> [] \<and>
   py_split NL scan_summary = [''1.1.1 A - Supports - x'', ''1.4.3 B - Supports - y''] \<and>
   py_strip ''1.1.1 A - Supports - x'' \<noteq> [] \<and> py_strip ''1.4.3 B - Supports - y'' \<noteq> []"
  using pipeline_output_lines [OF sample_extract_text sample_text_pdf [of initial_state]]
    pipeline_output_lines [OF sample_extract_scan sample_scan_pdf_run]
    sample_extract_text sample_extract_scan sample_chat_text [of "calls initial_state"]
    sample_scan_pdf_result scan_summary_nonempty scan_summary_lines
  by (simp add: strip_long_text length_long_text strip_newlines sample_text_pdf strip_chat_reply)

text \<open>
  C3 as the specification words it, no blank line in any result, fails on a document
  with text for which the text analyzer answers two lines with an empty line between
  them: \<open>analyze_pdf\<close> returns the answer with the empty line in it.
\<close>

theorem chat_output_blank_line_counterexample:
  "fst (analyze_pdf sample_world ''text.pdf'' initial_state) = Inr chat_summary \<and>
   py_split NL chat_summary = [''1.1.1 A - Supports - x'', [], ''1.4.3 B - Supports - y''] \<and>
   py_strip [] = []"
  by (simp add: sample_text_pdf chat_summary_lines py_strip_Nil)

end
